theory Spec2Isabelle
  imports Complex_Main
begin

section \<open>Data model of generate_image_graphs.py\<close>

text \<open>
  The metrics engine of \<^verbatim>\<open>generate_image_graphs.py\<close> reads Locust summary tables
  with pandas. A cell of such a table is a number, the missing value (NaN) or text.
  Python's \<^verbatim>\<open>float\<close> and numpy's \<^verbatim>\<open>float64\<close> are modelled by exact reals:
  rounding is outside this development, and so are the infinite floats.
\<close>

datatype cell = Num real | NaN | Str string

text \<open>
  The source applies Python's \<^verbatim>\<open>float\<close> and \<^verbatim>\<open>int\<close> to cells, and a cell of a
  damaged file may be text. What the two built-ins make of a text is not defined by
  the source, so the model takes it as a parameter: \<open>float_text\<close> and \<open>int_text\<close>
  give the number read, or \<open>None\<close> when Python raises \<^verbatim>\<open>ValueError\<close>. Every
  result below holds for all such readers. A text that \<^verbatim>\<open>float\<close> reads as an
  infinity or as NaN has no real value and is, like an infinite number in a cell,
  outside the model.
\<close>

record py_text =
  float_text :: "string \<Rightarrow> real option"
  int_text :: "string \<Rightarrow> int option"

text \<open>A reader that rejects every text, for tables without text in number columns.\<close>

definition no_numeric_text :: py_text where
  "no_numeric_text = \<lparr>float_text = (\<lambda>s. None), int_text = (\<lambda>s. None)\<rparr>"

text \<open>
  The exceptions the modelled functions can raise. \<open>BadValue\<close> stands for the
  \<^verbatim>\<open>ValueError\<close> or \<^verbatim>\<open>TypeError\<close> Python raises when a number is needed and
  the cell is text or NaN; \<open>ParserError\<close> for a failure of \<^verbatim>\<open>pd.read_csv\<close>.
  \<open>EmptyInputError\<close> is the error that the interface description names for an
  empty table; the source defines no such exception and no function below returns it.
\<close>

datatype error = KeyError | IndexError | BadValue | ParserError | EmptyInputError

text \<open>
  A pandas Series (one row of a table) is its labels with their values, in column
  order; \<^verbatim>\<open>row.get(col, default)\<close> looks a label up.
\<close>

type_synonym series = "(string \<times> cell) list"

definition series_get :: "series \<Rightarrow> string \<Rightarrow> cell \<Rightarrow> cell" where
  "series_get row col dflt = (case map_of row col of None \<Rightarrow> dflt | Some v \<Rightarrow> v)"

text \<open>A DataFrame: the column labels and the rows of cells, in file order.\<close>

record dataframe =
  columns :: "string list"
  data :: "cell list list"

definition rows_of :: "dataframe \<Rightarrow> series list" where
  "rows_of df = map (zip (columns df)) (data df)"

definition SLA_THRESHOLD_MS :: real where
  "SLA_THRESHOLD_MS = 3000"

definition USER_COUNTS :: "int list" where
  "USER_COUNTS = [10, 25, 50, 100, 200]"

section \<open>I/O helpers\<close>

text \<open>
  The raw directory, as far as \<^verbatim>\<open>load_stats\<close> sees it: for a user count, \<open>None\<close>
  when the file \<^verbatim>\<open>{n}_users_stats.csv\<close> does not exist, otherwise what
  \<^verbatim>\<open>pd.read_csv\<close> does on it (an exception or a table).
\<close>

type_synonym raw_dir = "int \<Rightarrow> (error + dataframe) option"

definition load_stats :: "raw_dir \<Rightarrow> int \<Rightarrow> error + dataframe option" where
  "load_stats fs user_count =
     (case fs user_count of
        None \<Rightarrow> Inr None
      | Some (Inl e) \<Rightarrow> Inl e
      | Some (Inr df) \<Rightarrow> Inr (Some df))"

text \<open>
  \<^verbatim>\<open>agg = df[df["Name"] == "Aggregated"]; return agg.iloc[0] if not agg.empty else df.iloc[-1]\<close>.
  Selecting a column that the table does not have raises \<^verbatim>\<open>KeyError\<close>;
  \<^verbatim>\<open>iloc[-1]\<close> on a table without rows raises \<^verbatim>\<open>IndexError\<close>.
\<close>

definition is_aggregated :: "series \<Rightarrow> bool" where
  "is_aggregated r = (map_of r ''Name'' = Some (Str ''Aggregated''))"

definition get_aggregated :: "dataframe \<Rightarrow> error + series" where
  "get_aggregated df =
     (if ''Name'' \<notin> set (columns df) then Inl KeyError
      else (let agg = filter is_aggregated (rows_of df) in
        if agg \<noteq> [] then Inr (hd agg)
        else if rows_of df = [] then Inl IndexError
        else Inr (last (rows_of df))))"

section \<open>The SLA estimator\<close>

definition pct_cols :: "(int \<times> string) list" where
  "pct_cols =
     [(50, ''50%''), (66, ''66%''), (75, ''75%''), (80, ''80%''),
      (90, ''90%''), (95, ''95%''), (98, ''98%''), (99, ''99%''),
      (100, ''100%'')]"

text \<open>
  The loop that builds the (percentile, response time) pairs: a column that is
  absent or NaN is dropped (\<^verbatim>\<open>pd.isna\<close> is false on text), and \<^verbatim>\<open>float(val)\<close>
  keeps a number, reads a text, or raises on a text that is no number.
\<close>

fun build_points ::
  "py_text \<Rightarrow> series \<Rightarrow> (int \<times> string) list \<Rightarrow> error + (int \<times> real) list" where
  "build_points py row [] = Inr []"
| "build_points py row ((pct, col) # cols) =
     (case map_of row col of
        None \<Rightarrow> build_points py row cols
      | Some NaN \<Rightarrow> build_points py row cols
      | Some (Str s) \<Rightarrow>
          (case float_text py s of
             None \<Rightarrow> Inl BadValue
           | Some v \<Rightarrow>
               (case build_points py row cols of
                  Inl e \<Rightarrow> Inl e
                | Inr points \<Rightarrow> Inr ((pct, v) # points)))
      | Some (Num v) \<Rightarrow>
          (case build_points py row cols of
             Inl e \<Rightarrow> Inl e
           | Inr points \<Rightarrow> Inr ((pct, v) # points)))"

text \<open>
  The scan over consecutive pairs. The result records which of the two branches
  of the interpolation produced the value; \<open>None\<close> means that the loop ended
  without returning.
\<close>

datatype branch = Degenerate | Interpolated

fun scan_pairs :: "(int \<times> real) list \<Rightarrow> real \<Rightarrow> (branch \<times> real) option" where
  "scan_pairs ((p_lo, rt_lo) # (p_hi, rt_hi) # rest) threshold_ms =
     (if rt_lo < threshold_ms \<and> threshold_ms \<le> rt_hi then
        (if rt_hi = rt_lo then Some (Degenerate, 100 - real_of_int p_lo)
         else Some (Interpolated,
           100 - (real_of_int p_lo
                  + (threshold_ms - rt_lo) / (rt_hi - rt_lo) * real_of_int (p_hi - p_lo))))
      else scan_pairs ((p_hi, rt_hi) # rest) threshold_ms)"
| "scan_pairs [p] threshold_ms = None"
| "scan_pairs [] threshold_ms = None"

text \<open>The estimator on the points, from \<^verbatim>\<open>if not points\<close> to the last return.\<close>

definition violation_pct :: "(int \<times> real) list \<Rightarrow> real \<Rightarrow> real" where
  "violation_pct points threshold_ms =
     (if points = [] then 0
      else if list_all (\<lambda>(p, rt). rt < threshold_ms) points then 0
      else if snd (hd points) \<ge> threshold_ms then 100
      else (case scan_pairs points threshold_ms of
              Some (b, v) \<Rightarrow> v
            | None \<Rightarrow> if snd (hd points) \<ge> threshold_ms then 100 else 0))"

definition estimate_sla_violation_pct :: "py_text \<Rightarrow> series \<Rightarrow> real \<Rightarrow> error + real" where
  "estimate_sla_violation_pct py row threshold_ms =
     (case build_points py row pct_cols of
        Inl e \<Rightarrow> Inl e
      | Inr points \<Rightarrow> Inr (violation_pct points threshold_ms))"

section \<open>The cross-run aggregator\<close>

record run_metrics =
  Users :: int
  Avg_ms :: cell
  Median_ms :: cell
  P95_ms :: cell
  P99_ms :: cell
  Max_ms :: cell
  Req_s :: cell
  Failures :: int
  Total :: int
  Error_pct :: real
  SLA_Viol_pct :: real

text \<open>
  \<^verbatim>\<open>max(x, 1)\<close>: Python keeps \<open>x\<close> unless \<open>1 > x\<close>, so NaN stays NaN; comparing
  text with a number raises. \<^verbatim>\<open>int(x)\<close> truncates towards zero, fails on NaN
  and reads a text.
\<close>

definition py_max1 :: "cell \<Rightarrow> error + cell" where
  "py_max1 c = (case c of
     Num x \<Rightarrow> Inr (Num (if 1 > x then 1 else x))
   | NaN \<Rightarrow> Inr NaN
   | Str s \<Rightarrow> Inl BadValue)"

definition py_int :: "py_text \<Rightarrow> cell \<Rightarrow> error + int" where
  "py_int py c = (case c of
     Num x \<Rightarrow> Inr (if x \<ge> 0 then \<lfloor>x\<rfloor> else \<lceil>x\<rceil>)
   | NaN \<Rightarrow> Inl BadValue
   | Str s \<Rightarrow> (case int_text py s of None \<Rightarrow> Inl BadValue | Some k \<Rightarrow> Inr k))"

text \<open>
  The body of the loop of \<^verbatim>\<open>collect_metrics\<close> for one aggregate row. The last
  case is the \<^verbatim>\<open>TypeError\<close> of \<^verbatim>\<open>failures / total\<close> on a text failure count
  that \<^verbatim>\<open>int\<close> could read.
\<close>

definition metrics_row :: "py_text \<Rightarrow> int \<Rightarrow> series \<Rightarrow> error + run_metrics" where
  "metrics_row py n r =
     (case py_max1 (series_get r ''Request Count'' (Num 1)) of
        Inl e \<Rightarrow> Inl e
      | Inr total' \<Rightarrow>
     (let failures = series_get r ''Failure Count'' (Num 0) in
      case estimate_sla_violation_pct py r SLA_THRESHOLD_MS of
        Inl e \<Rightarrow> Inl e
      | Inr sla_viol \<Rightarrow>
     (case py_int py failures of
        Inl e \<Rightarrow> Inl e
      | Inr failures_int \<Rightarrow>
     (case py_int py total' of
        Inl e \<Rightarrow> Inl e
      | Inr total_int \<Rightarrow>
     (case (failures, total') of
        (Num f, Num t) \<Rightarrow> Inr
          \<lparr>Users = n,
           Avg_ms = series_get r ''Average Response Time'' (Num 0),
           Median_ms = series_get r ''Median Response Time'' (Num 0),
           P95_ms = series_get r ''95%'' (series_get r ''95% Response Time'' (Num 0)),
           P99_ms = series_get r ''99%'' (series_get r ''99% Response Time'' (Num 0)),
           Max_ms = series_get r ''Max Response Time'' (Num 0),
           Req_s = series_get r ''Requests/s'' (Num 0),
           Failures = failures_int,
           Total = total_int,
           Error_pct = f / t * 100,
           SLA_Viol_pct = sla_viol\<rparr>
      | _ \<Rightarrow> Inl BadValue)))))"

text \<open>
  The loop over the user counts, with the list \<open>rows\<close> it appends to. An
  exception of a step ends the loop.
\<close>

fun collect_loop ::
  "py_text \<Rightarrow> raw_dir \<Rightarrow> int list \<Rightarrow> run_metrics list \<Rightarrow> error + run_metrics list" where
  "collect_loop py fs [] rows = Inr rows"
| "collect_loop py fs (n # ns) rows =
     (case load_stats fs n of
        Inl e \<Rightarrow> Inl e
      | Inr None \<Rightarrow> collect_loop py fs ns rows
      | Inr (Some df) \<Rightarrow>
          (case get_aggregated df of
             Inl e \<Rightarrow> Inl e
           | Inr r \<Rightarrow>
               (case metrics_row py n r of
                  Inl e \<Rightarrow> Inl e
                | Inr m \<Rightarrow> collect_loop py fs ns (rows @ [m]))))"

definition collect_metrics :: "py_text \<Rightarrow> raw_dir \<Rightarrow> error + run_metrics list" where
  "collect_metrics py fs = collect_loop py fs USER_COUNTS []"

section \<open>Specification-side notions\<close>

text \<open>
  A percentile-point sequence as the data model describes it: percentiles in
  ascending order, each between 0 and 100. The latencies are not constrained.
\<close>

definition valid_points :: "(int \<times> real) list \<Rightarrow> bool" where
  "valid_points points =
     (sorted (map fst points) \<and> list_all (\<lambda>(p, rt). 0 \<le> p \<and> p \<le> 100) points)"

text \<open>
  The bracketing rule in the words of the algorithm description: among the
  consecutive pairs, in order, the first one with \<open>rt_lo < threshold \<le> rt_hi\<close>,
  and the value interpolated on a pair.
\<close>

definition brackets :: "real \<Rightarrow> (int \<times> real) \<times> (int \<times> real) \<Rightarrow> bool" where
  "brackets T = (\<lambda>((p_lo, rt_lo), (p_hi, rt_hi)). rt_lo < T \<and> T \<le> rt_hi)"

definition spec_first_bracket ::
  "(int \<times> real) list \<Rightarrow> real \<Rightarrow> ((int \<times> real) \<times> (int \<times> real)) option" where
  "spec_first_bracket points T = find (brackets T) (zip points (tl points))"

definition spec_interpolate :: "real \<Rightarrow> (int \<times> real) \<times> (int \<times> real) \<Rightarrow> real" where
  "spec_interpolate T =
     (\<lambda>((p_lo, rt_lo), (p_hi, rt_hi)).
        if rt_hi = rt_lo then 100 - real_of_int p_lo
        else 100 - (real_of_int p_lo
                    + (T - rt_lo) / (rt_hi - rt_lo) * (real_of_int p_hi - real_of_int p_lo)))"

text \<open>
  A level that the loop body handles without raising: its file is absent, or it is
  read, reduced and turned into a row.
\<close>

definition level_ok :: "py_text \<Rightarrow> raw_dir \<Rightarrow> int \<Rightarrow> bool" where
  "level_ok py fs n =
     (case fs n of
        None \<Rightarrow> True
      | Some (Inl e) \<Rightarrow> False
      | Some (Inr df) \<Rightarrow>
          (case get_aggregated df of
             Inl e \<Rightarrow> False
           | Inr r \<Rightarrow> (case metrics_row py n r of Inl e \<Rightarrow> False | Inr m \<Rightarrow> True)))"

section \<open>The aggregate reducer\<close>

lemma filter_hd_find:
  "filter P xs \<noteq> [] \<Longrightarrow> find P xs = Some (hd (filter P xs))"
  by (induction xs) auto

lemma filter_Nil_find: "filter P xs = [] \<Longrightarrow> find P xs = None"
  by (induction xs) (auto split: if_splits)

text \<open>
  C7. For a table that has the Name column and at least one row, the reducer
  returns the first row whose name is the sentinel "Aggregated", and the last row
  of the table when no row has that name.
\<close>

theorem get_aggregated_first_or_last:
  assumes "''Name'' \<in> set (columns df)" and "rows_of df \<noteq> []"
  shows "get_aggregated df =
           Inr (case find is_aggregated (rows_of df) of
                  Some r \<Rightarrow> r
                | None \<Rightarrow> last (rows_of df))"
proof (cases "filter is_aggregated (rows_of df) = []")
  case True
  with assms show ?thesis
    by (simp add: get_aggregated_def filter_Nil_find)
next
  case False
  with assms show ?thesis
    by (simp add: get_aggregated_def filter_hd_find)
qed

theorem get_aggregated_first_or_last_witness:
  "get_aggregated
     \<lparr>columns = [''Name'', ''Request Count''],
      data = [[Str ''/image'', Num 5], [Str ''Aggregated'', Num 9], [Str ''/x'', Num 4]]\<rparr>
   = Inr [(''Name'', Str ''Aggregated''), (''Request Count'', Num 9)]"
  using get_aggregated_first_or_last
    [of "\<lparr>columns = [''Name'', ''Request Count''],
      data = [[Str ''/image'', Num 5], [Str ''Aggregated'', Num 9], [Str ''/x'', Num 4]]\<rparr>"]
  by (simp add: rows_of_def is_aggregated_def)

lemma get_aggregated_Inl_cases:
  "get_aggregated df = Inl e \<Longrightarrow>
     (e = KeyError \<and> ''Name'' \<notin> set (columns df)) \<or>
     (e = IndexError \<and> ''Name'' \<in> set (columns df) \<and> rows_of df = [])"
  by (auto simp: get_aggregated_def Let_def split: if_splits)

text \<open>
  C8, as stated, fails: on a table that has the Name column and no rows the
  reducer does not raise the EmptyInputError of the interface description.
\<close>

theorem get_aggregated_empty_not_EmptyInputError:
  "get_aggregated \<lparr>columns = [''Name'', ''Request Count''], data = []\<rparr>
     \<noteq> Inl EmptyInputError"
  by (simp add: get_aggregated_def rows_of_def)

text \<open>
  C8, amended. On a table without rows the reducer returns no row: it raises the
  IndexError of \<^verbatim>\<open>df.iloc[-1]\<close> (the KeyError of the column selection when the
  table has no Name column, as for any table without it). There is no emptiness
  check: IndexError is raised exactly on the tables that have the Name column and no
  rows, and no table makes the reducer raise an EmptyInputError.
\<close>

theorem get_aggregated_empty_raises:
  "(rows_of df = [] \<longrightarrow>
      get_aggregated df = Inl (if ''Name'' \<in> set (columns df) then IndexError else KeyError))
   \<and> (get_aggregated df = Inl IndexError
        \<longleftrightarrow> ''Name'' \<in> set (columns df) \<and> rows_of df = [])
   \<and> get_aggregated df \<noteq> Inl EmptyInputError"
proof (intro conjI impI)
  assume "rows_of df = []"
  then show "get_aggregated df =
      Inl (if ''Name'' \<in> set (columns df) then IndexError else KeyError)"
    by (simp add: get_aggregated_def)
next
  show "get_aggregated df = Inl IndexError
        \<longleftrightarrow> ''Name'' \<in> set (columns df) \<and> rows_of df = []"
  proof
    assume "get_aggregated df = Inl IndexError"
    from get_aggregated_Inl_cases[OF this]
    show "''Name'' \<in> set (columns df) \<and> rows_of df = []" by simp
  next
    assume "''Name'' \<in> set (columns df) \<and> rows_of df = []"
    then show "get_aggregated df = Inl IndexError" by (simp add: get_aggregated_def)
  qed
next
  show "get_aggregated df \<noteq> Inl EmptyInputError"
  proof
    assume "get_aggregated df = Inl EmptyInputError"
    from get_aggregated_Inl_cases[OF this] show False by simp
  qed
qed

theorem get_aggregated_empty_raises_witness:
  "get_aggregated \<lparr>columns = [''Name'', ''Request Count''], data = []\<rparr> = Inl IndexError"
  using get_aggregated_empty_raises
    [of "\<lparr>columns = [''Name'', ''Request Count''], data = []\<rparr>"]
  by (simp add: rows_of_def)

section \<open>Bounds on the interpolation\<close>

lemma frac_nonneg:
  fixes T :: real
  assumes "rt_lo < T" "T \<le> rt_hi"
  shows "0 \<le> (T - rt_lo) / (rt_hi - rt_lo)" and "(T - rt_lo) / (rt_hi - rt_lo) \<le> 1"
  using assms by (auto simp: divide_le_eq)

lemma breach_bounds:
  fixes T :: real and p_lo p_hi :: int
  assumes "rt_lo < T" "T \<le> rt_hi" "p_lo \<le> p_hi"
  shows "real_of_int p_lo \<le> real_of_int p_lo + (T - rt_lo) / (rt_hi - rt_lo) * real_of_int (p_hi - p_lo)"
    and "real_of_int p_lo + (T - rt_lo) / (rt_hi - rt_lo) * real_of_int (p_hi - p_lo) \<le> real_of_int p_hi"
proof -
  let ?f = "(T - rt_lo) / (rt_hi - rt_lo)"
  let ?d = "real_of_int (p_hi - p_lo)"
  have f: "0 \<le> ?f" "?f \<le> 1" using assms frac_nonneg by auto
  have d: "0 \<le> ?d" using assms by simp
  have "0 \<le> ?f * ?d" using f d by (intro mult_nonneg_nonneg)
  then show "real_of_int p_lo \<le> real_of_int p_lo + ?f * ?d" by simp
  have "?f * ?d \<le> 1 * ?d" using f d by (intro mult_right_mono) auto
  then show "real_of_int p_lo + ?f * ?d \<le> real_of_int p_hi" by simp
qed

lemma breach_mono:
  fixes T1 T2 :: real and p_lo p_hi :: int
  assumes "rt_lo < T1" "T1 \<le> T2" "T2 \<le> rt_hi" "p_lo \<le> p_hi"
  shows "(T1 - rt_lo) / (rt_hi - rt_lo) * real_of_int (p_hi - p_lo)
       \<le> (T2 - rt_lo) / (rt_hi - rt_lo) * real_of_int (p_hi - p_lo)"
proof -
  have "(T1 - rt_lo) / (rt_hi - rt_lo) \<le> (T2 - rt_lo) / (rt_hi - rt_lo)"
    using assms by (intro divide_right_mono) auto
  then show ?thesis using assms by (intro mult_right_mono) auto
qed

lemma scan_pairs_upper:
  "sorted (map fst points) \<Longrightarrow> scan_pairs points T = Some (b, v)
   \<Longrightarrow> v \<le> 100 - real_of_int (fst (hd points))"
proof (induction points T rule: scan_pairs.induct)
  case (1 p_lo rt_lo p_hi rt_hi rest T)
  show ?case
  proof (cases "rt_lo < T \<and> T \<le> rt_hi")
    case True
    then have "real_of_int p_lo \<le> real_of_int p_lo + (T - rt_lo) / (rt_hi - rt_lo) * real_of_int (p_hi - p_lo)"
      using breach_bounds(1)[of rt_lo T rt_hi p_lo p_hi] "1.prems"(1) by simp
    with True "1.prems"(2) show ?thesis by (auto split: if_splits)
  next
    case False
    with 1 have "v \<le> 100 - real_of_int p_hi" by auto
    moreover have "p_lo \<le> p_hi" using "1.prems"(1) by simp
    ultimately show ?thesis by simp
  qed
qed simp_all

lemma scan_pairs_lower:
  "sorted (map fst points) \<Longrightarrow> \<forall>p\<in>set points. fst p \<le> 100
   \<Longrightarrow> scan_pairs points T = Some (b, v) \<Longrightarrow> 0 \<le> v"
proof (induction points T rule: scan_pairs.induct)
  case (1 p_lo rt_lo p_hi rt_hi rest T)
  show ?case
  proof (cases "rt_lo < T \<and> T \<le> rt_hi")
    case True
    then have "real_of_int p_lo + (T - rt_lo) / (rt_hi - rt_lo) * real_of_int (p_hi - p_lo) \<le> real_of_int p_hi"
      using breach_bounds(2)[of rt_lo T rt_hi p_lo p_hi] "1.prems"(1) by simp
    moreover have "real_of_int p_hi \<le> 100" using "1.prems"(2) by simp
    ultimately show ?thesis using True "1.prems"(3) by (auto split: if_splits)
  next
    case False
    with 1 show ?thesis by auto
  qed
qed simp_all

lemma scan_pairs_mono:
  "sorted (map fst points) \<Longrightarrow> T1 \<le> T2 \<Longrightarrow> snd (hd points) < T1
   \<Longrightarrow> scan_pairs points T1 = Some (b1, v1) \<Longrightarrow> scan_pairs points T2 = Some (b2, v2)
   \<Longrightarrow> v2 \<le> v1"
proof (induction points T1 rule: scan_pairs.induct)
  case (1 p_lo rt_lo p_hi rt_hi rest T1)
  have lo: "rt_lo < T1" and le: "p_lo \<le> p_hi" and srt: "sorted (map fst ((p_hi, rt_hi) # rest))"
    using "1.prems" by auto
  show ?case
  proof (cases "T1 \<le> rt_hi")
    case True
    note b1 = this
    have v1: "v1 = 100 - (real_of_int p_lo + (T1 - rt_lo) / (rt_hi - rt_lo) * real_of_int (p_hi - p_lo))"
      using lo b1 "1.prems"(4) by (auto split: if_splits)
    show ?thesis
    proof (cases "T2 \<le> rt_hi")
      case True
      have "v2 = 100 - (real_of_int p_lo + (T2 - rt_lo) / (rt_hi - rt_lo) * real_of_int (p_hi - p_lo))"
        using lo True "1.prems"(2,5) by (auto split: if_splits)
      with v1 breach_mono[of rt_lo T1 T2 rt_hi p_lo p_hi] lo True "1.prems"(2) le
      show ?thesis by simp
    next
      case False
      then have "scan_pairs ((p_hi, rt_hi) # rest) T2 = Some (b2, v2)"
        using "1.prems"(5) by simp
      from scan_pairs_upper[OF srt this] have "v2 \<le> 100 - real_of_int p_hi" by simp
      moreover have "real_of_int p_lo + (T1 - rt_lo) / (rt_hi - rt_lo) * real_of_int (p_hi - p_lo) \<le> real_of_int p_hi"
        using breach_bounds(2)[of rt_lo T1 rt_hi p_lo p_hi] lo b1 le by simp
      ultimately show ?thesis using v1 by simp
    qed
  next
    case False
    then have nb: "\<not> (rt_lo < T1 \<and> T1 \<le> rt_hi)" by simp
    have r1: "scan_pairs ((p_hi, rt_hi) # rest) T1 = Some (b1, v1)"
      using False "1.prems"(4) by simp
    have "\<not> T2 \<le> rt_hi" using False "1.prems"(2) by simp
    then have r2: "scan_pairs ((p_hi, rt_hi) # rest) T2 = Some (b2, v2)"
      using "1.prems"(5) by simp
    have "snd (hd ((p_hi, rt_hi) # rest)) < T1" using False by simp
    from "1.IH"[OF nb srt "1.prems"(2) this r1 r2] show ?thesis .
  qed
qed simp_all

section \<open>The estimator on a point sequence\<close>

lemma not_all_below:
  "(\<not> list_all (\<lambda>(p, rt). rt < T) points) = (\<exists>pt\<in>set points. (T::real) \<le> snd pt)"
  by (induction points) (auto simp: not_less)

lemma scan_pairs_spec:
  "map_option snd (scan_pairs points T)
     = map_option (spec_interpolate T) (spec_first_bracket points T)"
  by (induction points T rule: scan_pairs.induct)
     (simp_all add: spec_first_bracket_def spec_interpolate_def brackets_def)

lemma scan_bracket_exists:
  "snd (hd points) < T \<Longrightarrow> \<exists>pt\<in>set points. T \<le> snd pt \<Longrightarrow>
   \<exists>pre p_lo rt_lo p_hi rt_hi post.
     points = pre @ (p_lo, rt_lo) # (p_hi, rt_hi) # post \<and> rt_lo < T \<and> T \<le> rt_hi \<and>
     0 < rt_hi - rt_lo \<and>
     scan_pairs points T = Some (Interpolated,
       100 - (real_of_int p_lo
              + (T - rt_lo) / (rt_hi - rt_lo) * real_of_int (p_hi - p_lo)))"
proof (induction points T rule: scan_pairs.induct)
  case (1 p_lo rt_lo p_hi rt_hi rest T)
  have lo: "rt_lo < T" using "1.prems"(1) by simp
  show ?case
  proof (cases "T \<le> rt_hi")
    case True
    with lo have "(p_lo, rt_lo) # (p_hi, rt_hi) # rest = [] @ (p_lo, rt_lo) # (p_hi, rt_hi) # rest
      \<and> rt_lo < T \<and> T \<le> rt_hi \<and> 0 < rt_hi - rt_lo \<and>
      scan_pairs ((p_lo, rt_lo) # (p_hi, rt_hi) # rest) T = Some (Interpolated,
       100 - (real_of_int p_lo
              + (T - rt_lo) / (rt_hi - rt_lo) * real_of_int (p_hi - p_lo)))"
      by simp
    then show ?thesis by blast
  next
    case False
    then have nb: "\<not> (rt_lo < T \<and> T \<le> rt_hi)" by simp
    have hd': "snd (hd ((p_hi, rt_hi) # rest)) < T" using False by simp
    have ex': "\<exists>pt\<in>set ((p_hi, rt_hi) # rest). T \<le> snd pt"
      using "1.prems"(2) lo by auto
    from "1.IH"[OF nb hd' ex'] obtain pre a b c d post where
      eq: "(p_hi, rt_hi) # rest = pre @ (a, b) # (c, d) # post"
      and br: "b < T" "T \<le> d" "0 < d - b"
      and sc: "scan_pairs ((p_hi, rt_hi) # rest) T = Some (Interpolated,
         100 - (real_of_int a + (T - b) / (d - b) * real_of_int (c - a)))"
      by blast
    have "(p_lo, rt_lo) # (p_hi, rt_hi) # rest = ((p_lo, rt_lo) # pre) @ (a, b) # (c, d) # post"
      using eq by simp
    moreover have "scan_pairs ((p_lo, rt_lo) # (p_hi, rt_hi) # rest) T = Some (Interpolated,
         100 - (real_of_int a + (T - b) / (d - b) * real_of_int (c - a)))"
      using False sc by simp
    ultimately show ?thesis using br by blast
  qed
next
  case (2 p T)
  then show ?case by (cases p) auto
next
  case (3 T)
  then show ?case by simp
qed

lemma violation_pct_scan:
  assumes "snd (hd points) < T" and "\<exists>pt\<in>set points. T \<le> snd pt"
    and "scan_pairs points T = Some (b, v)"
  shows "violation_pct points T = v"
proof -
  have "points \<noteq> []" using assms(2) by auto
  moreover have "\<not> list_all (\<lambda>(p, rt). rt < T) points"
    using assms(2) by (simp add: not_all_below)
  ultimately show ?thesis using assms(1,3) by (simp add: violation_pct_def)
qed

lemma violation_pct_lowest_above_aux:
  assumes "points \<noteq> []" and "T \<le> snd (hd points)"
  shows "violation_pct points T = 100"
proof -
  have "hd points \<in> set points" using assms(1) by simp
  with assms(2) have "\<exists>pt\<in>set points. T \<le> snd pt" by blast
  then have "\<not> list_all (\<lambda>(p, rt). rt < T) points" by (simp add: not_all_below)
  with assms show ?thesis by (simp add: violation_pct_def)
qed

text \<open>
  C5. When the point sequence is not empty and the latency of its first
  (lowest-percentile) point is at least the threshold, the estimator returns 100.
\<close>

theorem violation_pct_lowest_above:
  assumes "points \<noteq> []" and "T \<le> snd (hd points)"
  shows "violation_pct points T = 100"
  using assms by (rule violation_pct_lowest_above_aux)

theorem violation_pct_lowest_above_witness:
  "violation_pct [(50, 3500), (99, 9000)] 3000 = 100"
  using violation_pct_lowest_above [of "[(50, 3500), (99, 9000)]" 3000] by simp

text \<open>
  C4. When the first latency is strictly below the threshold and some latency
  reaches it, the first consecutive pair with \<open>rt_lo < threshold \<le> rt_hi\<close> exists and
  the estimator returns the value interpolated on that pair: 100 minus
  \<open>p_lo + (threshold - rt_lo) / (rt_hi - rt_lo) * (p_hi - p_lo)\<close>, or 100 minus \<open>p_lo\<close>
  if the two latencies are equal.
\<close>

theorem violation_pct_first_bracket:
  assumes "points \<noteq> []" and "snd (hd points) < T" and "\<exists>pt\<in>set points. T \<le> snd pt"
  shows "\<exists>pair. spec_first_bracket points T = Some pair \<and>
           violation_pct points T = spec_interpolate T pair"
proof -
  from scan_bracket_exists[OF assms(2,3)] obtain v where
    sc: "scan_pairs points T = Some (Interpolated, v)" by blast
  have v: "violation_pct points T = v" using violation_pct_scan[OF assms(2,3) sc] .
  from scan_pairs_spec[of points T] sc
  have "map_option (spec_interpolate T) (spec_first_bracket points T) = Some v" by simp
  then obtain pair where "spec_first_bracket points T = Some pair" "spec_interpolate T pair = v"
    by auto
  with v show ?thesis by simp
qed

theorem violation_pct_first_bracket_witness:
  "\<exists>pair. spec_first_bracket [(50, 800), (95, 2500), (99, 4200), (100, 5000)] 3000 = Some pair \<and>
     violation_pct [(50, 800), (95, 2500), (99, 4200), (100, 5000)] 3000
       = spec_interpolate 3000 pair"
  using violation_pct_first_bracket [of "[(50, 800), (95, 2500), (99, 4200), (100, 5000)]" 3000]
  by simp

text \<open>
  C10. Whenever the scan is entered (points not empty, not all below the
  threshold, first latency below it), a bracketing pair exists, its latencies differ
  strictly, and the scan returns through the dividing branch with a positive
  divisor: the loop never ends without returning, so the returns after it are not
  reached.
\<close>

theorem scan_reaches_interpolation:
  assumes "points \<noteq> []" and "\<not> list_all (\<lambda>(p, rt). rt < T) points"
    and "\<not> T \<le> snd (hd points)"
  shows "\<exists>pre p_lo rt_lo p_hi rt_hi post.
     points = pre @ (p_lo, rt_lo) # (p_hi, rt_hi) # post \<and> rt_lo < T \<and> T \<le> rt_hi \<and>
     0 < rt_hi - rt_lo \<and>
     scan_pairs points T = Some (Interpolated,
       100 - (real_of_int p_lo
              + (T - rt_lo) / (rt_hi - rt_lo) * real_of_int (p_hi - p_lo)))"
  using assms scan_bracket_exists[of points T] by (simp add: not_all_below not_le)

theorem scan_reaches_interpolation_witness:
  "\<exists>pre p_lo rt_lo p_hi rt_hi post.
     [(50, 800), (95, 2500), (99, 4200), (100, 5000)]
       = pre @ (p_lo, rt_lo) # (p_hi, rt_hi) # post \<and> rt_lo < 3000 \<and> 3000 \<le> rt_hi \<and>
     0 < rt_hi - rt_lo \<and>
     scan_pairs [(50, 800), (95, 2500), (99, 4200), (100, 5000)] 3000 = Some (Interpolated,
       100 - (real_of_int p_lo
              + (3000 - rt_lo) / (rt_hi - rt_lo) * real_of_int (p_hi - p_lo)))"
  using scan_reaches_interpolation [of "[(50, 800), (95, 2500), (99, 4200), (100, 5000)]" 3000]
  by simp

section \<open>The points of a row, the example and monotonicity\<close>

lemma build_points_step:
  assumes "build_points py row ((pct, col) # cols) = Inr points"
  shows "build_points py row cols = Inr points
         \<or> (\<exists>v ps. build_points py row cols = Inr ps \<and> points = (pct, v) # ps)"
proof (cases "map_of row col")
  case None
  with assms show ?thesis by simp
next
  case (Some c)
  show ?thesis
  proof (cases c)
    case (Num v)
    with Some assms show ?thesis by (cases "build_points py row cols") auto
  next
    case NaN
    with Some assms show ?thesis by simp
  next
    case (Str s)
    with Some assms show ?thesis
      by (cases "float_text py s"; cases "build_points py row cols") auto
  qed
qed

lemma build_points_fst:
  "build_points py row cols = Inr points \<Longrightarrow> sorted (map fst cols)
   \<Longrightarrow> sorted (map fst points) \<and> set (map fst points) \<subseteq> set (map fst cols)"
proof (induction cols arbitrary: points)
  case Nil
  then show ?case by simp
next
  case (Cons pc cols)
  obtain pct col where pc: "pc = (pct, col)" by (cases pc)
  have srt: "sorted (map fst cols)" and low: "\<forall>x\<in>set (map fst cols). pct \<le> x"
    using Cons.prems(2) pc by simp_all
  from Cons.prems(1) pc have "build_points py row ((pct, col) # cols) = Inr points" by simp
  from build_points_step[OF this] show ?case
  proof (elim disjE exE conjE)
    assume "build_points py row cols = Inr points"
    from Cons.IH[OF this srt] pc show ?thesis by auto
  next
    fix v ps
    assume ps: "build_points py row cols = Inr ps" and eq: "points = (pct, v) # ps"
    from Cons.IH[OF ps srt]
    have ih: "sorted (map fst ps)" "set (map fst ps) \<subseteq> set (map fst cols)" by auto
    from ih(2) low have "\<forall>x\<in>set (map fst ps). pct \<le> x" by blast
    with ih eq pc show ?thesis by auto
  qed
qed

text \<open>
  Text in a percentile column is read by \<^verbatim>\<open>float\<close>: the example points written
  as text give the same estimate as the numbers.
\<close>

lemma estimate_reads_text:
  assumes "float_text py ''800'' = Some 800" and "float_text py ''2500'' = Some 2500"
  shows "estimate_sla_violation_pct py
           [(''50%'', Str ''800''), (''95%'', Str ''2500''), (''99%'', Num 4200),
            (''100%'', Num 5000)] 3000 = Inr (65 / 17)"
  using assms by (simp add: estimate_sla_violation_pct_def pct_cols_def violation_pct_def)

text \<open>
  C1, as stated, fails: on the example points with threshold 3000 the estimate is
  not within 1 of 2.14.
\<close>

theorem sla_example_not_2_14:
  "\<not> \<bar>violation_pct [(50, 800), (95, 2500), (99, 4200), (100, 5000)] 3000 - 2.14\<bar> \<le> 1"
  by (simp add: violation_pct_def)

text \<open>
  C1, amended. On the points (50,800), (95,2500), (99,4200), (100,5000) with
  threshold 3000 the first bracketing pair is (95,2500), (99,4200) and the
  estimator returns 65/17, about 3.82: the fraction is 500/1700, about 0.294, and
  the breach percentile about 96.18.
\<close>

theorem sla_example_value:
  "spec_first_bracket [(50, 800), (95, 2500), (99, 4200), (100, 5000)] 3000
     = Some ((95, 2500), (99, 4200))
   \<and> violation_pct [(50, 800), (95, 2500), (99, 4200), (100, 5000)] 3000 = 65 / 17
   \<and> \<bar>violation_pct [(50, 800), (95, 2500), (99, 4200), (100, 5000)] 3000 - 3.82\<bar> < 0.01
   \<and> \<bar>(100 - violation_pct [(50, 800), (95, 2500), (99, 4200), (100, 5000)] 3000) - 96.18\<bar> < 0.01"
  by (simp add: violation_pct_def spec_first_bracket_def brackets_def)

lemma violation_pct_nonneg:
  assumes "valid_points points"
  shows "0 \<le> violation_pct points T"
proof (cases "scan_pairs points T")
  case None
  then show ?thesis by (simp add: violation_pct_def)
next
  case (Some bv)
  obtain b v where bv: "bv = (b, v)" by (cases bv)
  have "sorted (map fst points)" "\<forall>p\<in>set points. fst p \<le> 100"
    using assms by (auto simp: valid_points_def list_all_iff)
  from scan_pairs_lower[OF this] Some bv have "0 \<le> v" by simp
  with Some bv show ?thesis by (simp add: violation_pct_def)
qed

lemma violation_pct_le_100:
  assumes "valid_points points"
  shows "violation_pct points T \<le> 100"
proof (cases "scan_pairs points T")
  case None
  then show ?thesis by (simp add: violation_pct_def)
next
  case (Some bv)
  obtain b v where bv: "bv = (b, v)" by (cases bv)
  have ne: "points \<noteq> []" using Some by auto
  have srt: "sorted (map fst points)" using assms by (simp add: valid_points_def)
  have "0 \<le> fst (hd points)"
    using assms ne by (cases points) (auto simp: valid_points_def)
  moreover from scan_pairs_upper[OF srt] Some bv
  have "v \<le> 100 - real_of_int (fst (hd points))" by simp
  ultimately have "v \<le> 100" by simp
  with Some bv show ?thesis by (simp add: violation_pct_def)
qed

lemma violation_pct_all_below:
  "list_all (\<lambda>(p, rt). rt < T) points \<Longrightarrow> violation_pct points T = 0"
  by (simp add: violation_pct_def)

lemma violation_pct_antimono_aux:
  assumes vp: "valid_points points" and le: "T1 \<le> T2"
  shows "violation_pct points T2 \<le> violation_pct points T1"
proof (cases "list_all (\<lambda>(p, rt). rt < T2) points")
  case True
  then show ?thesis
    using violation_pct_nonneg[OF vp, of T1] by (simp add: violation_pct_all_below)
next
  case False
  then have ex2: "\<exists>pt\<in>set points. T2 \<le> snd pt" by (simp add: not_all_below)
  then have ex1: "\<exists>pt\<in>set points. T1 \<le> snd pt" using le by force
  have ne: "points \<noteq> []" using ex2 by auto
  have srt: "sorted (map fst points)" using vp by (simp add: valid_points_def)
  show ?thesis
  proof (cases "T2 \<le> snd (hd points)")
    case True
    then have "T1 \<le> snd (hd points)" using le by simp
    with True ne show ?thesis by (simp add: violation_pct_lowest_above_aux)
  next
    case False
    then have lo2: "snd (hd points) < T2" by simp
    from scan_bracket_exists[OF lo2 ex2] obtain v2 where
      s2: "scan_pairs points T2 = Some (Interpolated, v2)" by blast
    have v2: "violation_pct points T2 = v2" using violation_pct_scan[OF lo2 ex2 s2] .
    show ?thesis
    proof (cases "T1 \<le> snd (hd points)")
      case True
      then have "violation_pct points T1 = 100"
        using ne by (simp add: violation_pct_lowest_above_aux)
      then show ?thesis using violation_pct_le_100[OF vp, of T2] by simp
    next
      case False
      then have lo1: "snd (hd points) < T1" by simp
      from scan_bracket_exists[OF lo1 ex1] obtain v1 where
        s1: "scan_pairs points T1 = Some (Interpolated, v1)" by blast
      have v1: "violation_pct points T1 = v1" using violation_pct_scan[OF lo1 ex1 s1] .
      from scan_pairs_mono[OF srt le lo1 s1 s2] v1 v2 show ?thesis by simp
    qed
  qed
qed

text \<open>
  C3. For a percentile-point sequence (percentiles ascending, between 0 and 100)
  the estimate does not increase when the threshold increases.
\<close>

theorem violation_pct_antimono:
  assumes "valid_points points" and "T1 \<le> T2"
  shows "violation_pct points T2 \<le> violation_pct points T1"
  using assms by (rule violation_pct_antimono_aux)

theorem violation_pct_antimono_witness:
  "valid_points [(50, 800), (95, 2500), (99, 4200), (100, 5000)] \<and> (3000::real) \<le> 4000
   \<and> violation_pct [(50, 800), (95, 2500), (99, 4200), (100, 5000)] 4000
     \<le> violation_pct [(50, 800), (95, 2500), (99, 4200), (100, 5000)] 3000"
  using violation_pct_antimono [of "[(50, 800), (95, 2500), (99, 4200), (100, 5000)]" 3000 4000]
  by (simp add: valid_points_def)

lemma pct_cols_sorted: "sorted (map fst pct_cols)"
  by (simp add: pct_cols_def)

lemma pct_cols_bounds: "\<forall>p\<in>set (map fst pct_cols). 0 \<le> p \<and> p \<le> 100"
  by (simp add: pct_cols_def)

lemma build_points_valid:
  assumes "build_points py row pct_cols = Inr points"
  shows "valid_points points"
proof -
  from build_points_fst[OF assms pct_cols_sorted]
  have srt: "sorted (map fst points)" and sub: "set (map fst points) \<subseteq> set (map fst pct_cols)"
    by auto
  have "\<forall>pt\<in>set points. 0 \<le> fst pt \<and> fst pt \<le> 100"
  proof
    fix pt assume "pt \<in> set points"
    then have "fst pt \<in> set (map fst points)" by simp
    with sub have "fst pt \<in> set (map fst pct_cols)" by blast
    with pct_cols_bounds show "0 \<le> fst pt \<and> fst pt \<le> 100" by blast
  qed
  then have "list_all (\<lambda>(p, rt). 0 \<le> p \<and> p \<le> 100) points"
    by (auto simp: list_all_iff)
  with srt show ?thesis by (simp add: valid_points_def)
qed

text \<open>
  The points built from a row always form such a sequence, so on rows the
  estimator is monotone without any condition.
\<close>

lemma estimate_sla_violation_pct_antimono:
  assumes "estimate_sla_violation_pct py row T1 = Inr v1"
    and "estimate_sla_violation_pct py row T2 = Inr v2" and "T1 \<le> T2"
  shows "v2 \<le> v1"
proof -
  from assms(1) obtain points where p: "build_points py row pct_cols = Inr points"
    and v1: "v1 = violation_pct points T1"
    by (auto simp: estimate_sla_violation_pct_def split: sum.splits)
  from assms(2) p have v2: "v2 = violation_pct points T2"
    by (simp add: estimate_sla_violation_pct_def)
  from violation_pct_antimono_aux[OF build_points_valid[OF p] assms(3)] v1 v2
  show ?thesis by simp
qed

section \<open>The cross-run table\<close>

lemma series_get_Num:
  "series_get r col dflt = Num x \<Longrightarrow>
   map_of r col = Some (Num x) \<or> (map_of r col = None \<and> dflt = Num x)"
  by (auto simp: series_get_def split: option.splits)

lemma metrics_row_Inr:
  assumes "metrics_row py n r = Inr m"
  obtains t f where
    "series_get r ''Request Count'' (Num 1) = Num t"
    "series_get r ''Failure Count'' (Num 0) = Num f"
    "Users m = n" "Total m = \<lfloor>max t 1\<rfloor>" "Error_pct m = f / max t 1 * 100"
proof -
  obtain c where c: "series_get r ''Request Count'' (Num 1) = c" by simp
  obtain d where d: "series_get r ''Failure Count'' (Num 0) = d" by simp
  from assms c d obtain t f where t: "c = Num t" and f: "d = Num f"
    by (cases c; cases d)
       (auto simp: metrics_row_def py_max1_def py_int_def Let_def
             split: sum.splits option.splits)
  have mx: "(if 1 > t then 1 else t) = max t 1" by (simp add: max_def)
  have "0 \<le> max t 1" by (simp add: max_def)
  then have fl: "(if max t 1 \<ge> 0 then \<lfloor>max t 1\<rfloor> else \<lceil>max t 1\<rceil>) = \<lfloor>max t 1\<rfloor>"
    by (simp only: if_True)
  from assms c d t f have "Users m = n \<and> Total m = \<lfloor>max t 1\<rfloor> \<and> Error_pct m = f / max t 1 * 100"
    unfolding metrics_row_def py_max1_def py_int_def Let_def
    by (auto simp: mx fl split: sum.splits)
  with that c d t f show thesis by blast
qed

lemma collect_loop_users:
  "collect_loop py fs levels rows = Inr tbl \<Longrightarrow>
   map Users tbl = map Users rows @ filter (\<lambda>n. fs n \<noteq> None) levels"
proof (induction levels arbitrary: rows)
  case Nil
  then show ?case by simp
next
  case (Cons n ns)
  show ?case
  proof (cases "fs n")
    case None
    with Cons.prems have "collect_loop py fs ns rows = Inr tbl" by (simp add: load_stats_def)
    from Cons.IH[OF this] None show ?thesis by simp
  next
    case (Some res)
    with Cons.prems obtain df r m where
      "get_aggregated df = Inr r" and m: "metrics_row py n r = Inr m"
      and rec: "collect_loop py fs ns (rows @ [m]) = Inr tbl"
      by (auto simp: load_stats_def split: sum.splits)
    from m have "Users m = n" by (rule metrics_row_Inr)
    with Cons.IH[OF rec] Some show ?thesis by simp
  qed
qed

text \<open>
  For \<^verbatim>\<open>collect_metrics\<close> itself the requested levels are the configured user
  counts.
\<close>

lemma collect_metrics_users:
  "collect_metrics py fs = Inr tbl \<Longrightarrow>
   map Users tbl = filter (\<lambda>n. fs n \<noteq> None) [10, 25, 50, 100, 200]"
  using collect_loop_users[of py fs USER_COUNTS "[]" tbl]
  by (simp add: collect_metrics_def USER_COUNTS_def)

lemma collect_loop_total:
  "\<forall>n\<in>set levels. level_ok py fs n \<Longrightarrow> \<exists>tbl. collect_loop py fs levels rows = Inr tbl"
proof (induction levels arbitrary: rows)
  case Nil
  then show ?case by simp
next
  case (Cons n ns)
  then have ok: "level_ok py fs n" and rest: "\<forall>n\<in>set ns. level_ok py fs n" by simp_all
  show ?case
  proof (cases "fs n")
    case None
    with Cons.IH[OF rest, of rows] show ?thesis by (simp add: load_stats_def)
  next
    case (Some res)
    with ok obtain df r m where "res = Inr df" "get_aggregated df = Inr r"
      "metrics_row py n r = Inr m"
      by (auto simp: level_ok_def split: sum.splits)
    with Some Cons.IH[OF rest, of "rows @ [m]"] show ?thesis by (simp add: load_stats_def)
  qed
qed

lemma collect_loop_rows:
  "collect_loop py fs levels rows = Inr tbl \<Longrightarrow> m \<in> set tbl \<Longrightarrow>
   m \<in> set rows \<or>
   (\<exists>df r. fs (Users m) = Some (Inr df) \<and> get_aggregated df = Inr r \<and>
            metrics_row py (Users m) r = Inr m)"
proof (induction levels arbitrary: rows)
  case Nil
  then show ?case by simp
next
  case (Cons n ns)
  show ?case
  proof (cases "fs n")
    case None
    with Cons.prems have "collect_loop py fs ns rows = Inr tbl" by (simp add: load_stats_def)
    from Cons.IH[OF this Cons.prems(2)] show ?thesis .
  next
    case (Some res)
    with Cons.prems obtain df r m' where df: "res = Inr df"
      and r: "get_aggregated df = Inr r" and m': "metrics_row py n r = Inr m'"
      and rec: "collect_loop py fs ns (rows @ [m']) = Inr tbl"
      by (auto simp: load_stats_def split: sum.splits)
    from m' have u: "Users m' = n" by (rule metrics_row_Inr)
    from Cons.IH[OF rec Cons.prems(2)] show ?thesis
    proof (elim disjE)
      assume "m \<in> set (rows @ [m'])"
      then show ?thesis using Some df r m' u by auto
    qed simp
  qed
qed

lemmas eval_defs = metrics_row_def py_max1_def py_int_def series_get_def
  estimate_sla_violation_pct_def pct_cols_def violation_pct_def SLA_THRESHOLD_MS_def
  get_aggregated_def is_aggregated_def rows_of_def load_stats_def Let_def

lemma example_run_metrics:
  "metrics_row py 10 [(''Name'', Str ''Aggregated''), (''Request Count'', Num 40),
                   (''Failure Count'', Num 1)]
   = Inr \<lparr>Users = 10, Avg_ms = Num 0, Median_ms = Num 0, P95_ms = Num 0, P99_ms = Num 0,
          Max_ms = Num 0, Req_s = Num 0, Failures = 1, Total = 40, Error_pct = 5 / 2,
          SLA_Viol_pct = 0\<rparr>"
  by (simp add: eval_defs)

lemma zero_run_metrics:
  "metrics_row py 10 [(''Name'', Str ''Aggregated''), (''Request Count'', Num 0),
                   (''Failure Count'', Num 0)]
   = Inr \<lparr>Users = 10, Avg_ms = Num 0, Median_ms = Num 0, P95_ms = Num 0, P99_ms = Num 0,
          Max_ms = Num 0, Req_s = Num 0, Failures = 0, Total = 1, Error_pct = 0,
          SLA_Viol_pct = 0\<rparr>"
  by (simp add: eval_defs)

text \<open>
  C6. When the loop over the requested levels returns a table, the user counts of
  its rows are exactly the requested levels whose summary file exists, in the order
  requested: one row per present level, none for an absent one, no sorting. The
  loop does return a table whenever every present level is processed without an
  exception; an absent level never raises.
\<close>

theorem collect_loop_one_row_per_present_level:
  "(\<forall>tbl. collect_loop py fs levels [] = Inr tbl \<longrightarrow>
      map Users tbl = filter (\<lambda>n. fs n \<noteq> None) levels)
   \<and> ((\<forall>n\<in>set levels. level_ok py fs n) \<longrightarrow>
        (\<exists>tbl. collect_loop py fs levels [] = Inr tbl))"
  using collect_loop_users[of py fs levels "[]"] collect_loop_total[of levels py fs "[]"]
  by auto

theorem collect_loop_one_row_per_present_level_witness:
  "\<exists>tbl. collect_loop no_numeric_text
      [10 \<mapsto> Inr \<lparr>columns = [''Name'', ''Request Count'', ''Failure Count''],
                   data = [[Str ''Aggregated'', Num 40, Num 1]]\<rparr>] [10, 50] [] = Inr tbl
     \<and> map Users tbl = [10]"
proof -
  define df where "df = \<lparr>columns = [''Name'', ''Request Count'', ''Failure Count''],
                   data = [[Str ''Aggregated'', Num 40, Num 1]]\<rparr>"
  define fs :: raw_dir where "fs = [10 \<mapsto> Inr df]"
  define py where "py = no_numeric_text"
  have g: "get_aggregated df = Inr [(''Name'', Str ''Aggregated''), (''Request Count'', Num 40),
                   (''Failure Count'', Num 1)]"
    by (simp add: df_def get_aggregated_def is_aggregated_def rows_of_def)
  have "level_ok py fs 10" by (simp add: level_ok_def fs_def g example_run_metrics)
  moreover have "level_ok py fs 50" by (simp add: level_ok_def fs_def)
  ultimately have ok: "\<forall>n\<in>set [10, 50]. level_ok py fs n" by simp
  note inst = collect_loop_one_row_per_present_level[of py fs "[10, 50]"]
  from inst[THEN conjunct2, THEN mp, OF ok]
  obtain tbl where t: "collect_loop py fs [10, 50] [] = Inr tbl" ..
  from inst[THEN conjunct1, THEN spec, THEN mp, OF t]
  have u: "map Users tbl = [10]" by (simp add: fs_def)
  from t u have "collect_loop py fs [10, 50] [] = Inr tbl \<and> map Users tbl = [10]"
    by (rule conjI)
  then have "\<exists>tbl. collect_loop py fs [10, 50] [] = Inr tbl \<and> map Users tbl = [10]"
    by (rule exI)
  then show ?thesis by (simp only: fs_def df_def py_def)
qed

text \<open>
  C9. Every row of the output table comes from the aggregate row of the summary
  of its level. With \<open>t\<close> the number in that row's own Request Count cell (1 when
  the row has no such column) and \<open>f\<close> the number in its Failure Count cell (0
  when it has none), the row's Total field is the integer value of \<open>max t 1\<close>, so
  \<open>max k 1\<close> for a count \<open>k\<close> and 1 for a run with zero requests, and its error
  percentage is \<open>f\<close> divided by that same clamped value, times 100.
\<close>

theorem total_is_clamped_request_count:
  assumes "collect_loop py fs levels [] = Inr tbl" and "m \<in> set tbl"
  shows "\<exists>df r t f. fs (Users m) = Some (Inr df) \<and> get_aggregated df = Inr r \<and>
           (map_of r ''Request Count'' = Some (Num t)
            \<or> map_of r ''Request Count'' = None \<and> t = 1) \<and>
           (map_of r ''Failure Count'' = Some (Num f)
            \<or> map_of r ''Failure Count'' = None \<and> f = 0) \<and>
           Total m = \<lfloor>max t 1\<rfloor> \<and> (\<forall>k. t = real_of_int k \<longrightarrow> Total m = max k 1) \<and>
           Error_pct m = f / max t 1 * 100"
proof -
  from collect_loop_rows[OF assms] obtain df r where
    df: "fs (Users m) = Some (Inr df)" and r: "get_aggregated df = Inr r"
    and m: "metrics_row py (Users m) r = Inr m" by auto
  from m obtain t f where
    tf: "series_get r ''Request Count'' (Num 1) = Num t"
        "series_get r ''Failure Count'' (Num 0) = Num f"
        "Total m = \<lfloor>max t 1\<rfloor>" "Error_pct m = f / max t 1 * 100"
    by (rule metrics_row_Inr)
  from series_get_Num[OF tf(1)]
  have ct: "map_of r ''Request Count'' = Some (Num t)
            \<or> map_of r ''Request Count'' = None \<and> t = 1" by auto
  from series_get_Num[OF tf(2)]
  have cf: "map_of r ''Failure Count'' = Some (Num f)
            \<or> map_of r ''Failure Count'' = None \<and> f = 0" by auto
  have ck: "\<forall>k. t = real_of_int k \<longrightarrow> Total m = max k 1"
  proof (intro allI impI)
    fix k assume "t = real_of_int k"
    then have "max t 1 = real_of_int (max k 1)" by (simp add: max_def)
    with tf(3) show "Total m = max k 1" by simp
  qed
  from df r ct cf tf(3) ck tf(4) show ?thesis by (intro exI conjI)
qed

theorem total_is_clamped_request_count_witness:
  "\<exists>df r t f.
     [10 \<mapsto> Inr \<lparr>columns = [''Name'', ''Request Count'', ''Failure Count''],
                  data = [[Str ''Aggregated'', Num 40, Num 1]]\<rparr>] (10::int) = Some (Inr df) \<and>
     get_aggregated df = Inr r \<and>
     (map_of r ''Request Count'' = Some (Num t)
      \<or> map_of r ''Request Count'' = None \<and> t = 1) \<and>
     (map_of r ''Failure Count'' = Some (Num f)
      \<or> map_of r ''Failure Count'' = None \<and> f = 0) \<and>
     (40::int) = \<lfloor>max t 1\<rfloor> \<and> (\<forall>k. t = real_of_int k \<longrightarrow> (40::int) = max k 1) \<and>
     (5 / 2 :: real) = f / max t 1 * 100"
proof -
  let ?fs = "[10 \<mapsto> Inr \<lparr>columns = [''Name'', ''Request Count'', ''Failure Count''],
                  data = [[Str ''Aggregated'', Num 40, Num 1]]\<rparr>] :: raw_dir"
  let ?m = "\<lparr>Users = 10, Avg_ms = Num 0, Median_ms = Num 0, P95_ms = Num 0, P99_ms = Num 0,
          Max_ms = Num 0, Req_s = Num 0, Failures = 1, Total = 40, Error_pct = 5 / 2,
          SLA_Viol_pct = 0\<rparr>"
  have c: "collect_loop no_numeric_text ?fs [10] [] = Inr [?m]"
    by (simp add: load_stats_def get_aggregated_def is_aggregated_def rows_of_def
        example_run_metrics)
  have "?m \<in> set [?m]" by simp
  from total_is_clamped_request_count[OF c this] show ?thesis by simp
qed

text \<open>
  In the table of that example the row's count is 40 and its Total is 40; for the
  same table with a count of 0 the Total is 1.
\<close>

lemma example_table_totals:
  "map_sum id (map Total) (collect_loop py
      [10 \<mapsto> Inr \<lparr>columns = [''Name'', ''Request Count'', ''Failure Count''],
                   data = [[Str ''Aggregated'', Num 40, Num 1]]\<rparr>] [10] []) = Inr [40]"
  "map_sum id (map Total) (collect_loop py
      [10 \<mapsto> Inr \<lparr>columns = [''Name'', ''Request Count'', ''Failure Count''],
                   data = [[Str ''Aggregated'', Num 0, Num 0]]\<rparr>] [10] []) = Inr [1]"
  by (simp_all add: load_stats_def get_aggregated_def is_aggregated_def rows_of_def
      example_run_metrics zero_run_metrics)

text \<open>
  C2, as stated, fails: with 5 failures of 3 requests the error percentage is
  above 100, and with 3 failures of 0 requests it is 300, not 0.
\<close>

theorem error_pct_unbounded:
  "\<not> isl (metrics_row no_numeric_text 10
            [(''Request Count'', Num 3), (''Failure Count'', Num 5)])
   \<and> \<not> Error_pct (projr (metrics_row no_numeric_text 10
         [(''Request Count'', Num 3), (''Failure Count'', Num 5)])) \<le> 100
   \<and> \<not> isl (metrics_row no_numeric_text 10
            [(''Request Count'', Num 0), (''Failure Count'', Num 3)])
   \<and> Error_pct (projr (metrics_row no_numeric_text 10
         [(''Request Count'', Num 0), (''Failure Count'', Num 3)])) \<noteq> 0"
  by (simp add: eval_defs)

text \<open>
  C2, amended. When the failure count is between 0 and the request count, the
  error percentage lies between 0 and 100, and it is 0 when the request count is 0.
\<close>

theorem error_pct_in_range:
  assumes "metrics_row py n r = Inr m"
    and "series_get r ''Request Count'' (Num 1) = Num t"
    and "series_get r ''Failure Count'' (Num 0) = Num f"
    and "0 \<le> f" and "f \<le> t"
  shows "0 \<le> Error_pct m \<and> Error_pct m \<le> 100 \<and> (t = 0 \<longrightarrow> Error_pct m = 0)"
proof -
  from assms(1) obtain t' f' where
    "series_get r ''Request Count'' (Num 1) = Num t'"
    "series_get r ''Failure Count'' (Num 0) = Num f'"
    "Error_pct m = f' / max t' 1 * 100"
    by (rule metrics_row_Inr)
  with assms(2,3) have e: "Error_pct m = f / max t 1 * 100" by simp
  have pos: "0 < max t 1" by simp
  have "f \<le> max t 1" using assms(5) by simp
  then have le1: "f / max t 1 \<le> 1" using pos by (simp add: divide_le_eq)
  have ge0: "0 \<le> f / max t 1" using assms(4) pos by simp
  have "f / max t 1 * 100 \<le> 1 * 100" using le1 by (intro mult_right_mono) simp_all
  then have hi: "Error_pct m \<le> 100" using e by simp
  have "0 \<le> f / max t 1 * 100" using ge0 by (intro mult_nonneg_nonneg) simp_all
  then have lo: "0 \<le> Error_pct m" using e by simp
  have "t = 0 \<longrightarrow> Error_pct m = 0"
  proof
    assume "t = 0"
    with assms(4,5) have "f = 0" by simp
    with e show "Error_pct m = 0" by simp
  qed
  with lo hi show ?thesis by blast
qed

theorem error_pct_in_range_witness:
  "0 \<le> Error_pct (projr (metrics_row no_numeric_text 10
         [(''Request Count'', Num 40), (''Failure Count'', Num 1)]))
   \<and> Error_pct (projr (metrics_row no_numeric_text 10
         [(''Request Count'', Num 40), (''Failure Count'', Num 1)])) \<le> 100"
proof -
  let ?r = "[(''Request Count'', Num 40), (''Failure Count'', Num 1)]"
  obtain m where m: "metrics_row no_numeric_text 10 ?r = Inr m" by (simp add: eval_defs)
  have "series_get ?r ''Request Count'' (Num 1) = Num 40"
    "series_get ?r ''Failure Count'' (Num 0) = Num 1"
    by (simp_all add: series_get_def)
  from error_pct_in_range[OF m this] show ?thesis by (simp add: m)
qed

end
